theory Spec2Isabelle
  imports Main "HOL-Library.Sublist"
begin

section \<open>The command tree of package Z (z/cmd.go)\<close>

text \<open>
  A \<open>*Cmd\<close> is a pointer, and \<open>Seek\<close>, \<open>Run\<close> and \<open>cacheAliases\<close> write through it
  (\<open>Caller\<close>, \<open>_aliases\<close>), so the nodes live in an explicit store: an address is a
  natural number and the store maps every address to the struct found there. A nil pointer
  is \<open>None\<close> at the place that holds it. The fields of \<open>Cmd\<close> that only feed the help
  texts (Summary, Usage, Version, ..., Other, MinParm, MaxParm, UsageFunc, _sections) are
  left out. \<open>Commands\<close> keeps the difference between a nil slice (\<open>None\<close>) and an empty
  one, because \<open>Resolve\<close> and \<open>Seek\<close> test it; for \<open>Aliases\<close>, \<open>Params\<close> and
  \<open>Hidden\<close> the code treats nil and empty alike, and both are the empty list. The elements
  of \<open>Commands\<close> are taken to be non-nil pointers. The field \<open>_aliases\<close> is
  \<open>priv_aliases\<close>; a nil Go map reads like the empty map.
\<close>

type_synonym addr = nat

record Cmd =
  Name :: string
  Aliases :: "string list"
  Commands :: "addr list option"
  Params :: "string list"
  Hidden :: "string list"
  Completer :: "nat option"
  Caller :: "addr option"
  Call :: "nat option"
  MinArgs :: int
  ReqConf :: bool
  priv_aliases :: "string \<rightharpoonup> addr"

type_synonym store = "addr \<Rightarrow> Cmd"

text \<open>\<open>for _, c := range x.Commands\<close> runs over nothing when the slice is nil.\<close>

definition children :: "Cmd \<Rightarrow> addr list" where
  "children c = (case Commands c of None \<Rightarrow> [] | Some cs \<Rightarrow> cs)"

text \<open>
  \<open>cacheAliases\<close>: a fresh map, then \<open>x._aliases[a] = c\<close> for every child in declaration
  order and every alias of it; a later assignment to the same key overwrites.
\<close>

definition alias_table :: "store \<Rightarrow> addr list \<Rightarrow> (string \<rightharpoonup> addr)" where
  "alias_table h cs =
     fold (\<lambda>c m. fold (\<lambda>a m'. m'(a \<mapsto> c)) (Aliases (h c)) m) cs Map.empty"

definition cacheAliases :: "store \<Rightarrow> addr \<Rightarrow> store" where
  "cacheAliases h x = h(x := (h x)\<lparr>priv_aliases := alias_table h (children (h x))\<rparr>)"

text \<open>\<open>Resolve\<close>: nil \<open>Commands\<close> gives nil; else the first child of that name; else the
  entry of the alias cache, if any.\<close>

definition Resolve :: "store \<Rightarrow> addr \<Rightarrow> string \<Rightarrow> addr option" where
  "Resolve h x name =
     (case Commands (h x) of
        None \<Rightarrow> None
      | Some cs \<Rightarrow>
          (case find (\<lambda>c. name = Name (h c)) cs of
             Some c \<Rightarrow> Some c
           | None \<Rightarrow> priv_aliases (h x) name))"

text \<open>
  \<open>Seek\<close>: the loop over \<open>args\<close> with the current node; each step writes
  \<open>next.Caller = cur\<close>. The result is the store after these writes, the node reached and
  \<open>args[n:]\<close>. (A nil \<open>args\<close> and an empty one give the same node and no residual.)
\<close>

fun seek_loop :: "store \<Rightarrow> addr \<Rightarrow> string list \<Rightarrow> store \<times> addr \<times> string list" where
  "seek_loop h cur [] = (h, cur, [])"
| "seek_loop h cur (a # as) =
     (case Resolve h cur a of
        None \<Rightarrow> (h, cur, a # as)
      | Some nxt \<Rightarrow> seek_loop (h(nxt := (h nxt)\<lparr>Caller := Some cur\<rparr>)) nxt as)"

definition Seek :: "store \<Rightarrow> addr \<Rightarrow> string list \<Rightarrow> store \<times> addr \<times> string list" where
  "Seek h x args = (if Commands (h x) = None then (h, x, args) else seek_loop h x args)"

text \<open>\<open>CmdNames\<close>: the names of the children, those with an empty name skipped.\<close>

definition CmdNames :: "store \<Rightarrow> addr \<Rightarrow> string list" where
  "CmdNames h x = filter (\<lambda>n. n \<noteq> []) (map (\<lambda>c. Name (h c)) (children (h x)))"

section \<open>Standard completion (comp/standard.go)\<close>

text \<open>
  \<open>set.Minus\<close> and \<open>filt.HasPrefix\<close> come from the libraries rwxrob/structs and
  rwxrob/fn: the first keeps, in order, the elements of its first argument that are not in
  the second; the other keeps, in order, the elements that start with the prefix. A
  completer is a Go function; nodes hold the number of one, and \<open>comps\<close> gives its result.
\<close>

definition Minus :: "string list \<Rightarrow> string list \<Rightarrow> string list" where
  "Minus xs ms = filter (\<lambda>i. i \<notin> set ms) xs"

definition HasPrefix :: "string list \<Rightarrow> string \<Rightarrow> string list" where
  "HasPrefix xs pre = filter (\<lambda>i. prefix pre i) xs"

definition Standard ::
  "(nat \<Rightarrow> store \<Rightarrow> addr \<Rightarrow> string list \<Rightarrow> string list) \<Rightarrow> store \<Rightarrow> addr \<Rightarrow> string list \<Rightarrow> string list"
where
  "Standard comps h x args =
     (case Completer (h x) of
        Some c \<Rightarrow> comps c h x args
      | None \<Rightarrow>
          if length args = 0 then [Name (h x)]
          else
            let list = Minus (CmdNames h x @ Params (h x)) (Hidden (h x))
            in if length args = 0 then list else HasPrefix list (hd args))"

section \<open>Splitting the completion line (ArgsFrom in z/bonzai.go)\<close>

text \<open>
  A Go string is a sequence of bytes, here a \<open>string\<close> whose characters are the bytes.
  \<open>strings.Fields\<close> splits around each run of characters for which \<open>unicode.IsSpace\<close>
  holds: the six ASCII ones and, in UTF-8, U+0085, U+00A0, U+1680, U+2000 to U+200A,
  U+2028, U+2029, U+202F, U+205F and U+3000. None of their encodings starts with a
  continuation byte, and Go's decoder consumes one byte of an invalid sequence, so such a
  character is found wherever its encoding stands; \<open>space_width\<close> gives the number of
  bytes of the space character at the head of a string, 0 when there is none.
\<close>

definition asciiSpace :: "char \<Rightarrow> bool" where
  "asciiSpace c \<longleftrightarrow> c \<in> {CHR 0x09, CHR 0x0A, CHR 0x0B, CHR 0x0C, CHR 0x0D, CHR 0x20}"

definition space_width :: "string \<Rightarrow> nat" where
  "space_width s =
     (case s of
        [] \<Rightarrow> 0
      | c # cs \<Rightarrow>
          if asciiSpace c then 1
          else if c = CHR 0xC2 then
            (case cs of d # _ \<Rightarrow> if d = CHR 0x85 \<or> d = CHR 0xA0 then 2 else 0 | [] \<Rightarrow> 0)
          else if c = CHR 0xE1 then
            (case cs of d # e # _ \<Rightarrow> if d = CHR 0x9A \<and> e = CHR 0x80 then 3 else 0 | _ \<Rightarrow> 0)
          else if c = CHR 0xE2 then
            (case cs of
               d # e # _ \<Rightarrow>
                 if d = CHR 0x80 \<and>
                    ((0x80::nat) \<le> of_char e \<and> (of_char e :: nat) \<le> 0x8A
                     \<or> e = CHR 0xA8 \<or> e = CHR 0xA9 \<or> e = CHR 0xAF) then 3
                 else if d = CHR 0x81 \<and> e = CHR 0x9F then 3
                 else 0
             | _ \<Rightarrow> 0)
          else if c = CHR 0xE3 then
            (case cs of d # e # _ \<Rightarrow> if d = CHR 0x80 \<and> e = CHR 0x80 then 3 else 0 | _ \<Rightarrow> 0)
          else 0)"

text \<open>
  \<open>fields_go k cur s\<close>: \<open>k\<close> bytes of a space character are still to be skipped,
  \<open>cur\<close> is the field being read, reversed (empty between fields).
\<close>

definition flush :: "string \<Rightarrow> string list" where
  "flush cur = (if cur = [] then [] else [rev cur])"

fun fields_go :: "nat \<Rightarrow> string \<Rightarrow> string \<Rightarrow> string list" where
  "fields_go k cur [] = flush cur"
| "fields_go (Suc k) cur (c # cs) = fields_go k cur cs"
| "fields_go 0 cur (c # cs) =
     (let w = space_width (c # cs)
      in if w = 0 then fields_go 0 (c # cur) cs
         else flush cur @ fields_go (w - 1) [] cs)"

definition Fields :: "string \<Rightarrow> string list" where
  "Fields s = fields_go 0 [] s"

definition ArgsFrom :: "string \<Rightarrow> string list" where
  "ArgsFrom line =
     (if line = [] then []
      else Fields line @ (if last line = CHR 0x20 then [[]] else []))"

section \<open>The process around a run (z/bonzai.go)\<close>

text \<open>
  The package variables and the process state are the fields of \<open>world\<close>:
  \<open>os_Args\<close> is \<open>os.Args\<close>, \<open>COMP_LINE\<close> the environment variable,
  \<open>Z_Aliases\<close> the map \<open>Aliases\<close> (a key bound to a nil slice is \<open>Some None\<close>),
  \<open>Conf\<close> the configurer (its \<open>Query\<close>) or nil, \<open>Z_Commands\<close> the multicall map
  \<open>Commands\<close>. The functions that the code calls and that are defined elsewhere are
  fields too: \<open>methods m\<close> is the Go function behind the \<open>Call\<close> numbered \<open>m\<close> (its result
  is the message of the error it returns, \<open>None\<close> for nil), \<open>completers\<close> likewise,
  \<open>KeysWithPrefix\<close> is \<open>maps.KeysWithPrefix\<close> and \<open>EscAll\<close> the function of that
  name. A method is taken to return normally and to leave the package variables alone.
\<close>

text \<open>
  A value of a multicall entry is a \<open>*Cmd\<close>, a string or something else. An \<open>err\<close> is
  one of the errors the code builds: \<open>UsageError\<close> holds the node whose usage line it
  prints, \<open>ReqConfError\<close>, \<open>Unimplemented\<close> and \<open>Unmapped\<close> the name they print,
  \<open>ActionError\<close> the message of a method's error; \<open>RuntimePanic\<close> is what \<open>TrapPanic\<close>
  logs. An \<open>event\<close> is what a run does to the outside: a line logged by \<open>ExitError\<close> or
  by \<open>Q\<close>, lines printed, the call of a method on a node with its arguments, a query to
  the configurer.
\<close>

datatype anyv = ACmd addr | AStr string | AOther

datatype err =
    UsageError addr
  | ReqConfError string
  | Unimplemented string
  | DefaultNeedsCall
  | ActionError string
  | MulticallMissing
  | FirstNotCmd
  | OnlyStrings
  | Unmapped string
  | RuntimePanic

datatype event =
    Logged err
  | LoggedReqConf string
  | Printed "string list"
  | Invoked nat addr "string list"
  | Queried string

text \<open>
  How control leaves a function: the process exited with a status, a panic went up to
  the caller (a process nobody recovers in ends with status 2), or the function returned.
\<close>

datatype status = Exited nat | Panicked | Returned

record world =
  mem :: store
  os_Args :: "string list"
  COMP_LINE :: string
  Z_Aliases :: "string \<rightharpoonup> string list option"
  Conf :: "(string \<Rightarrow> string) option"
  DoNotExit :: bool
  AllowPanic :: bool
  ExeName :: string
  Z_Commands :: "string \<rightharpoonup> anyv list"
  methods :: "nat \<Rightarrow> store \<Rightarrow> addr \<Rightarrow> string list \<Rightarrow> string option"
  completers :: "nat \<Rightarrow> store \<Rightarrow> addr \<Rightarrow> string list \<Rightarrow> string list"
  KeysWithPrefix :: "(string \<rightharpoonup> string list option) \<Rightarrow> string \<Rightarrow> string list"
  EscAll :: "string list \<Rightarrow> string list"

type_synonym outcome = "world \<times> event list \<times> status"

text \<open>
  \<open>Exit\<close> and \<open>ExitError\<close> end the process unless \<open>DoNotExit\<close> is set; then they
  return and the caller goes on with \<open>rest\<close>. \<open>ExitError\<close> logs the error first, when
  its message is not empty (only a method's error can be empty).
\<close>

definition log_of :: "err \<Rightarrow> event list" where
  "log_of e = (if e = ActionError [] then [] else [Logged e])"

definition Exit :: "world \<Rightarrow> event list \<Rightarrow> outcome \<Rightarrow> outcome" where
  "Exit w es rest = (if DoNotExit w then rest else (w, es, Exited 0))"

definition ExitError :: "world \<Rightarrow> event list \<Rightarrow> err \<Rightarrow> (event list \<Rightarrow> outcome) \<Rightarrow> outcome" where
  "ExitError w es e rest =
     (if DoNotExit w then rest (es @ log_of e) else (w, es @ log_of e, Exited 1))"

text \<open>A panic inside \<open>Cmd.Run\<close> meets the deferred \<open>TrapPanic\<close>: unless \<open>AllowPanic\<close>
  is set it logs the panic and calls \<open>os.Exit(1)\<close> itself.\<close>

definition TrapPanic :: "world \<Rightarrow> event list \<Rightarrow> outcome" where
  "TrapPanic w es =
     (if AllowPanic w then (w, es, Panicked) else (w, es @ [Logged RuntimePanic], Exited 1))"

fun join :: "string \<Rightarrow> string list \<Rightarrow> string" where
  "join sep [] = []"
| "join sep [x] = x"
| "join sep (x # y # ys) = x @ sep @ join sep (y # ys)"

text \<open>The rewrite of \<open>os.Args\<close> at the start of \<open>Cmd.Run\<close> (lines 173 to 182).\<close>

definition expand_aliases :: "(string \<rightharpoonup> string list option) \<Rightarrow> string list \<Rightarrow> string list" where
  "expand_aliases al osargs =
     (if length osargs > 1 then
        (case al (osargs ! 1) of
           Some (Some alias) \<Rightarrow> [osargs ! 0] @ alias @ drop 2 osargs
         | _ \<Rightarrow> osargs)
      else osargs)"

text \<open>Lines 236 to 243: the caller defaults to \<open>x\<close>, the method runs, its error decides
  the exit. Calling a nil \<open>Call\<close> panics.\<close>

definition delegate :: "world \<Rightarrow> event list \<Rightarrow> addr \<Rightarrow> addr \<Rightarrow> string list \<Rightarrow> outcome" where
  "delegate w es x cmd args =
     (let h = (if Caller (mem w cmd) = None
               then (mem w)(cmd := (mem w cmd)\<lparr>Caller := Some x\<rparr>) else mem w);
          w' = w\<lparr>mem := h\<rparr>
      in case Call (h cmd) of
           None \<Rightarrow> TrapPanic w' es
         | Some m \<Rightarrow>
             (let es' = es @ [Invoked m cmd args]
              in case methods w' m h cmd args of
                   Some msg \<Rightarrow>
                     ExitError w' es' (ActionError msg) (\<lambda>es''. Exit w' es'' (w', es'', Returned))
                 | None \<Rightarrow> Exit w' es' (w', es', Returned)))"

text \<open>Lines 228 to 234: the two checks. The second one reads \<open>ReqConf\<close> of \<open>x\<close>, the
  node \<open>Run\<close> was called on, and reports the name of \<open>cmd\<close>.\<close>

definition check_conf :: "world \<Rightarrow> event list \<Rightarrow> addr \<Rightarrow> addr \<Rightarrow> string list \<Rightarrow> outcome" where
  "check_conf w es x cmd args =
     (if ReqConf (mem w x) \<and> Conf w = None
      then ExitError w es (ReqConfError (Name (mem w cmd))) (\<lambda>es'. delegate w es' x cmd args)
      else delegate w es x cmd args)"

definition check_args :: "world \<Rightarrow> event list \<Rightarrow> addr \<Rightarrow> addr \<Rightarrow> string list \<Rightarrow> outcome" where
  "check_args w es x cmd args =
     (if int (length args) < MinArgs (mem w cmd)
      then ExitError w es (UsageError cmd) (\<lambda>es'. check_conf w es' x cmd args)
      else check_conf w es x cmd args)"

text \<open>Lines 214 to 226: without a \<open>Call\<close> the first child stands in; without children
  the error is \<open>x.Unimplemented()\<close>.\<close>

definition default_cmd :: "world \<Rightarrow> event list \<Rightarrow> addr \<Rightarrow> addr \<Rightarrow> string list \<Rightarrow> outcome" where
  "default_cmd w es x cmd args =
     (if Call (mem w cmd) = None then
        (case children (mem w cmd) of
           fcmd # _ \<Rightarrow>
             (let w' = w\<lparr>mem := (mem w)(fcmd := (mem w fcmd)\<lparr>Caller := Some cmd\<rparr>)\<rparr>
              in if Call (mem w fcmd) = None
                 then ExitError w es DefaultNeedsCall (\<lambda>es'. check_args w' es' x fcmd args)
                 else check_args w' es x fcmd args)
         | [] \<Rightarrow>
             ExitError w es (Unimplemented (Name (mem w x))) (\<lambda>es'. check_args w es' x cmd args))
      else check_args w es x cmd args)"

text \<open>Lines 208 to 212: \<open>os.Args[1:]\<close> panics on an empty \<open>os.Args\<close>; \<open>Seek\<close> never
  returns nil, so the check after it never fires.\<close>

definition dispatch :: "world \<Rightarrow> event list \<Rightarrow> addr \<Rightarrow> outcome" where
  "dispatch w es x =
     (case os_Args w of
        [] \<Rightarrow> TrapPanic w es
      | _ # rest \<Rightarrow>
          (case Seek (mem w) x rest of
             (h, cmd, args) \<Rightarrow> default_cmd (w\<lparr>mem := h\<rparr>) es x cmd args))"

text \<open>
  Lines 184 to 206, the completion context. \<open>lineargs[1:]\<close> panics when the line has no
  field and no trailing space. With \<open>DoNotExit\<close> set the code runs on after each
  \<open>Exit()\<close>: after printing the list it calls the nil \<open>Completer\<close>, which panics; after
  printing a completer's result it goes on to dispatch.
\<close>

definition slice_of :: "string list option \<Rightarrow> string list" where
  "slice_of v = (case v of None \<Rightarrow> [] | Some xs \<Rightarrow> xs)"

definition completion :: "world \<Rightarrow> addr \<Rightarrow> outcome" where
  "completion w x =
     (let lineargs = ArgsFrom (COMP_LINE w);
          list0 = (if length lineargs = 2
                   then KeysWithPrefix w (Z_Aliases w) (lineargs ! 1) else [])
      in case lineargs of
           [] \<Rightarrow> TrapPanic w []
         | _ # la \<Rightarrow>
             (case Seek (mem w) x la of
                (h, cmd, args) \<Rightarrow>
                  (let w' = w\<lparr>mem := h\<rparr>
                   in case Completer (h cmd) of
                        None \<Rightarrow>
                          (let list = list0 @ Standard (completers w') h cmd args;
                               print_list = (\<lambda>es. Exit w' (es @ [Printed list])
                                                  (TrapPanic w' (es @ [Printed list])))
                           in if length list = 1 \<and> length lineargs = 2 then
                                (case Z_Aliases w' (list ! 0) of
                                   Some v \<Rightarrow>
                                     (let es = [Printed [join '' '' (EscAll w' (slice_of v))]]
                                      in Exit w' es (print_list es))
                                 | None \<Rightarrow> print_list [])
                              else print_list [])
                      | Some c \<Rightarrow>
                          (let es = [Printed (completers w' c h cmd args)]
                           in Exit w' es (dispatch w' es x)))))"

text \<open>\<open>Cmd.Run\<close>: the alias cache of \<open>x\<close> alone is rebuilt, \<open>os.Args\<close> is rewritten,
  then completion or dispatch.\<close>

definition Cmd_Run :: "world \<Rightarrow> addr \<Rightarrow> outcome" where
  "Cmd_Run w x =
     (let w1 = w\<lparr>mem := cacheAliases (mem w) x\<rparr>;
          w2 = w1\<lparr>os_Args := expand_aliases (Z_Aliases w1) (os_Args w1)\<rparr>
      in if COMP_LINE w2 \<noteq> [] then completion w2 x else dispatch w2 [] x)"

text \<open>
  The multicall \<open>Run\<close> (lines 155 to 181). It has no \<open>TrapPanic\<close> of its own, so its own
  panics (\<open>v[0]\<close> of an empty value, the name of a nil \<open>cmd\<close>, \<open>os.Args[1:]\<close> of an
  empty \<open>os.Args\<close>) go up. \<open>collect_strings\<close> is the loop over \<open>v[1:]\<close>: the events,
  the strings appended, and whether the process exited in it.
\<close>

fun collect_strings :: "bool \<Rightarrow> anyv list \<Rightarrow> event list \<times> string list \<times> bool" where
  "collect_strings d [] = ([], [], False)"
| "collect_strings d (a # as) =
     (case a of
        AStr s \<Rightarrow> (case collect_strings d as of (es, ss, stop) \<Rightarrow> (es, s # ss, stop))
      | _ \<Rightarrow>
          if d then (case collect_strings d as of
                       (es, ss, stop) \<Rightarrow> (Logged OnlyStrings # es, [] # ss, stop))
          else ([Logged OnlyStrings], [], True))"

definition run_mapped :: "world \<Rightarrow> event list \<Rightarrow> addr \<Rightarrow> string list \<Rightarrow> outcome" where
  "run_mapped w es cmd args =
     (case Cmd_Run (w\<lparr>os_Args := args\<rparr>) cmd of
        (w', es', st) \<Rightarrow>
          if st = Returned then
            Exit w' (es @ es')
              (ExitError w' (es @ es') (Unmapped (ExeName w')) (\<lambda>es''. (w', es'', Returned)))
          else (w', es @ es', st))"

definition Run :: "world \<Rightarrow> outcome" where
  "Run w =
     (case Z_Commands w (ExeName w) of
        Some v \<Rightarrow>
          (let first = (\<lambda>es.
                 case v of
                   [] \<Rightarrow> (w, es, Panicked)
                 | ACmd cmd # others \<Rightarrow>
                     (if length v > 1 then
                        (case os_Args w of
                           [] \<Rightarrow> (w, es, Panicked)
                         | _ # rest \<Rightarrow>
                             (case collect_strings (DoNotExit w) others of
                                (es', ss, stop) \<Rightarrow>
                                  if stop then (w, es @ es', Exited 1)
                                  else run_mapped w (es @ es') cmd
                                         ([Name (mem w cmd)] @ ss @ rest)))
                      else run_mapped w es cmd [Name (mem w cmd)])
                 | _ # others \<Rightarrow> ExitError w es FirstNotCmd (\<lambda>es'. (w, es', Panicked)))
           in if length v < 1 then ExitError w [] MulticallMissing first else first [])
      | None \<Rightarrow> ExitError w [] (Unmapped (ExeName w)) (\<lambda>es. (w, es, Returned)))"

section \<open>Path and Q (z/cmd.go)\<close>

text \<open>
  \<open>Path\<close> walks the \<open>Caller\<close> pointers up, putting each name in front, and drops the
  first name at the end. On a cycle of callers the loop never ends: the result is \<open>None\<close>.
\<close>

partial_function (option) path_loop :: "store \<Rightarrow> addr option \<Rightarrow> string list \<Rightarrow> string list option" where
  "path_loop h p acc =
     (case p of
        None \<Rightarrow> Some acc
      | Some a \<Rightarrow> path_loop h (Caller (h a)) (Name (h a) # acc))"

definition Path :: "store \<Rightarrow> addr \<Rightarrow> string list option" where
  "Path h x = map_option tl (path_loop h (Caller (h x)) [Name (h x)])"

definition PathString :: "store \<Rightarrow> addr \<Rightarrow> string option" where
  "PathString h x = map_option (join ''.'') (Path h x)"

text \<open>\<open>Q\<close>: the events (a log line, or the call of the configurer with its argument)
  and the string returned; \<open>None\<close> when \<open>Path\<close> does not return.\<close>

definition Q :: "world \<Rightarrow> addr \<Rightarrow> string \<Rightarrow> (event list \<times> string) option" where
  "Q w x q =
     (case Conf w of
        None \<Rightarrow> Some ([LoggedReqConf (Name (mem w x))], [])
      | Some query \<Rightarrow>
          (case PathString (mem w) x of
             None \<Rightarrow> None
           | Some p \<Rightarrow> Some ([Queried (p @ ''.'' @ q)], query (p @ ''.'' @ q))))"

section \<open>Concrete trees and processes\<close>

text \<open>The zero value of the struct.\<close>

definition nil_cmd :: Cmd where
  "nil_cmd = \<lparr>Name = [], Aliases = [], Commands = None, Params = [], Hidden = [],
     Completer = None, Caller = None, Call = None, MinArgs = 0, ReqConf = False,
     priv_aliases = Map.empty\<rparr>"

text \<open>A root \<open>r\<close> with the child \<open>a\<close> (alias \<open>aa\<close>), which has the child \<open>b\<close>
  (alias \<open>bb\<close>).\<close>

definition nested_store :: store where
  "nested_store = (\<lambda>_. nil_cmd)
     (0 := nil_cmd\<lparr>Name := ''r'', Commands := Some [1]\<rparr>,
      1 := nil_cmd\<lparr>Name := ''a'', Aliases := [''aa''], Commands := Some [2]\<rparr>,
      2 := nil_cmd\<lparr>Name := ''b'', Aliases := [''bb'']\<rparr>)"

text \<open>A root whose two children both declare the alias \<open>x\<close>.\<close>

definition dup_store :: store where
  "dup_store = (\<lambda>_. nil_cmd)
     (0 := nil_cmd\<lparr>Name := ''r'', Commands := Some [1, 2]\<rparr>,
      1 := nil_cmd\<lparr>Name := ''one'', Aliases := [''x'']\<rparr>,
      2 := nil_cmd\<lparr>Name := ''two'', Aliases := [''x'']\<rparr>)"

text \<open>A process with nothing set: no aliases, no configurer, exits enabled, methods that
  return nil.\<close>

definition nil_world :: world where
  "nil_world = \<lparr>mem = (\<lambda>_. nil_cmd), os_Args = [], COMP_LINE = [], Z_Aliases = Map.empty,
     Conf = None, DoNotExit = False, AllowPanic = False, ExeName = [],
     Z_Commands = Map.empty, methods = (\<lambda>_ _ _ _. None), completers = (\<lambda>_ _ _ _. []),
     KeysWithPrefix = (\<lambda>_ _. []), EscAll = (\<lambda>xs. xs)\<rparr>"

text \<open>A root with the commands \<open>ci\<close> and \<open>commit\<close>, and two shorthand aliases, the
  first of which expands to the second.\<close>

definition chain_store :: store where
  "chain_store = (\<lambda>_. nil_cmd)
     (0 := nil_cmd\<lparr>Name := ''git'', Commands := Some [1, 2]\<rparr>,
      1 := nil_cmd\<lparr>Name := ''ci'', Call := Some 0\<rparr>,
      2 := nil_cmd\<lparr>Name := ''commit'', Call := Some 0\<rparr>)"

definition chain_world :: world where
  "chain_world = nil_world\<lparr>mem := chain_store,
     Z_Aliases := [''co'' \<mapsto> Some [''ci''], ''ci'' \<mapsto> Some [''commit'']]\<rparr>"


text \<open>A leaf that wants two arguments, run with one.\<close>

definition leaf_store :: store where
  "leaf_store = (\<lambda>_. nil_cmd)(0 := nil_cmd\<lparr>Name := ''leaf'', Call := Some 0, MinArgs := 2\<rparr>)"

definition leaf_world :: world where
  "leaf_world = nil_world\<lparr>mem := leaf_store, os_Args := [''leaf'', ''one'']\<rparr>"

text \<open>A root whose child \<open>stub\<close> has neither a method nor children.\<close>

definition stub_store :: store where
  "stub_store = (\<lambda>_. nil_cmd)
     (0 := nil_cmd\<lparr>Name := ''r'', Commands := Some [1]\<rparr>,
      1 := nil_cmd\<lparr>Name := ''stub''\<rparr>)"

definition stub_world :: world where
  "stub_world = nil_world\<lparr>mem := stub_store, os_Args := [''r'', ''stub'', ''x'']\<rparr>"

text \<open>A root whose child \<open>a\<close> requires the configurer; no configurer is assigned. In
  the second process it is the root that requires it.\<close>

definition conf_store :: store where
  "conf_store = (\<lambda>_. nil_cmd)
     (0 := nil_cmd\<lparr>Name := ''r'', Commands := Some [1]\<rparr>,
      1 := nil_cmd\<lparr>Name := ''a'', Call := Some 0, ReqConf := True\<rparr>)"

definition conf_world :: world where
  "conf_world = nil_world\<lparr>mem := conf_store, os_Args := [''r'', ''a'']\<rparr>"

definition rootconf_world :: world where
  "rootconf_world =
     conf_world\<lparr>mem := conf_store(0 := (conf_store 0)\<lparr>ReqConf := True\<rparr>)\<rparr>"

text \<open>A multicall entry for \<open>ls\<close> with nothing to prepend, and one that prepends
  \<open>-a\<close>.\<close>

definition ls_store :: store where
  "ls_store = (\<lambda>_. nil_cmd)(0 := nil_cmd\<lparr>Name := ''ls'', Call := Some 0\<rparr>)"

definition ls_world :: world where
  "ls_world = nil_world\<lparr>mem := ls_store, ExeName := ''ls'', os_Args := [''ls'', ''-l''],
     Z_Commands := [''ls'' \<mapsto> [ACmd 0]]\<rparr>"

definition lsa_world :: world where
  "lsa_world = ls_world\<lparr>Z_Commands := [''ls'' \<mapsto> [ACmd 0, AStr ''-a'']]\<rparr>"

text \<open>
  Standard completion as C8 words it, for a node without a completer: its own name for
  no token; else the names of the children that are not hidden, then the parameter
  strings, filtered by the first token as a prefix.
\<close>

definition Standard_as_claimed :: "store \<Rightarrow> addr \<Rightarrow> string list \<Rightarrow> string list" where
  "Standard_as_claimed h x args =
     (if args = [] then [Name (h x)]
      else filter (prefix (hd args))
             (filter (\<lambda>n. n \<notin> set (Hidden (h x))) (map (\<lambda>c. Name (h c)) (children (h x)))
              @ Params (h x)))"

text \<open>
  A path of child names: from \<open>x\<close>, each token is the name of a child of the node
  before it, and the first-declared child of that name is the next node.
\<close>

fun follow_names :: "store \<Rightarrow> addr \<Rightarrow> string list \<Rightarrow> addr option" where
  "follow_names h x [] = Some x"
| "follow_names h x (a # as) =
     (case find (\<lambda>c. a = Name (h c)) (children (h x)) of
        None \<Rightarrow> None
      | Some c \<Rightarrow> follow_names h c as)"

text \<open>The root of the spec's example, and a node with a hidden parameter.\<close>

definition build_store :: store where
  "build_store = (\<lambda>_. nil_cmd)
     (0 := nil_cmd\<lparr>Name := ''root'', Commands := Some [1, 2]\<rparr>,
      1 := nil_cmd\<lparr>Name := ''build''\<rparr>,
      2 := nil_cmd\<lparr>Name := ''test''\<rparr>)"

definition hidden_store :: store where
  "hidden_store = (\<lambda>_. nil_cmd)
     (0 := nil_cmd\<lparr>Name := ''root'', Params := [''secret''], Hidden := [''secret'']\<rparr>)"


section \<open>Resolve and Seek\<close>

lemma fold_alias_upd:
  "fold (\<lambda>a m'. m'(a \<mapsto> c)) as m n = (if n \<in> set as then Some c else m n)"
  by (induction as arbitrary: m) auto

lemma find_app:
  "find P (xs @ ys) = (case find P xs of Some x \<Rightarrow> Some x | None \<Rightarrow> find P ys)"
  by (induction xs) auto

lemma alias_fold_find:
  "fold (\<lambda>c m. fold (\<lambda>a m'. m'(a \<mapsto> c)) (Aliases (h c)) m) cs m0 n =
     (case find (\<lambda>c. n \<in> set (Aliases (h c))) (rev cs) of Some c \<Rightarrow> Some c | None \<Rightarrow> m0 n)"
  by (induction cs arbitrary: m0) (auto simp: fold_alias_upd find_app split: option.splits)

text \<open>The cache maps an alias to the last child that declares it.\<close>

lemma alias_table_find:
  "alias_table h cs n = find (\<lambda>c. n \<in> set (Aliases (h c))) (rev cs)"
  by (simp add: alias_table_def alias_fold_find split: option.splits)

lemma cacheAliases_keeps [simp]:
  "Name (cacheAliases h x c) = Name (h c)"
  "Commands (cacheAliases h x c) = Commands (h c)"
  "Call (cacheAliases h x c) = Call (h c)"
  "MinArgs (cacheAliases h x c) = MinArgs (h c)"
  "ReqConf (cacheAliases h x c) = ReqConf (h c)"
  "Caller (cacheAliases h x c) = Caller (h c)"
  by (simp_all add: cacheAliases_def)

text \<open>
  C2, as amended. Whatever the cache holds, a child of the name \<open>n\<close> wins, the first
  declared one. When no child has that name and the cache of \<open>x\<close> has just been built by
  \<open>cacheAliases\<close>, \<open>Resolve\<close> returns the child declared last among those that carry
  \<open>n\<close> as an alias, and nil when there is none.
\<close>

theorem Resolve_name_then_last_alias:
  "(\<forall>cs c. Commands (h x) = Some cs \<and> find (\<lambda>c. n = Name (h c)) cs = Some c
       \<longrightarrow> Resolve h x n = Some c) \<and>
   Resolve (cacheAliases h x) x n =
     (case Commands (h x) of
        None \<Rightarrow> None
      | Some cs \<Rightarrow>
          (case find (\<lambda>c. n = Name (h c)) cs of
             Some c \<Rightarrow> Some c
           | None \<Rightarrow> find (\<lambda>c. n \<in> set (Aliases (h c))) (rev cs)))"
proof -
  have "priv_aliases (cacheAliases h x x) n =
          find (\<lambda>c. n \<in> set (Aliases (h c))) (rev (children (h x)))"
    by (simp add: cacheAliases_def alias_table_find)
  then show ?thesis
    unfolding Resolve_def cacheAliases_keeps
    by (auto simp: children_def split: option.splits)
qed

theorem Resolve_name_then_last_alias_witness:
  "Commands (dup_store 0) = Some [1, 2] \<and>
   find (\<lambda>c. ''two'' = Name (dup_store c)) [1, 2] = Some 2 \<and>
   Resolve dup_store 0 ''two'' = Some 2 \<and>
   Resolve (cacheAliases dup_store 0) 0 ''x'' = Some 2"
  using Resolve_name_then_last_alias [of dup_store 0 "''two''"]
    Resolve_name_then_last_alias [of dup_store 0 "''x''"]
  by (simp add: dup_store_def nil_cmd_def)

text \<open>
  C2 as stated fails: no child is named \<open>x\<close>, both children carry the alias \<open>x\<close>, and
  \<open>Resolve\<close> returns the second one, not the first.
\<close>

theorem Resolve_first_alias_counterexample:
  "find (\<lambda>c. ''x'' = Name (dup_store c)) (children (dup_store 0)) = None \<and>
   find (\<lambda>c. ''x'' \<in> set (Aliases (dup_store c))) (children (dup_store 0)) = Some 1 \<and>
   Resolve (cacheAliases dup_store 0) 0 ''x'' = Some 2"
  by (simp add: cacheAliases_def dup_store_def nil_cmd_def Resolve_def alias_table_def
      children_def)

lemma Caller_upd_keeps [simp]:
  "Name ((h(n := (h n)\<lparr>Caller := c\<rparr>)) a) = Name (h a)"
  "Commands ((h(n := (h n)\<lparr>Caller := c\<rparr>)) a) = Commands (h a)"
  "priv_aliases ((h(n := (h n)\<lparr>Caller := c\<rparr>)) a) = priv_aliases (h a)"
  by simp_all

text \<open>Writing a \<open>Caller\<close> changes nothing that \<open>Resolve\<close> reads.\<close>

lemma Resolve_Caller_upd [simp]:
  "Resolve (h(n := (h n)\<lparr>Caller := c\<rparr>)) x name = Resolve h x name"
  unfolding Resolve_def Caller_upd_keeps ..

text \<open>\<open>Seek\<close> is a total function; what it leaves over is a suffix of its arguments, and
  the first token left over is one that the node reached does not resolve.\<close>

lemma seek_loop_suffix: "suffix (snd (snd (seek_loop h x args))) args"
  by (induction args arbitrary: h x) (auto split: option.splits intro: suffix_ConsI)

lemma Seek_residual_suffix: "suffix (snd (snd (Seek h x args))) args"
  by (simp add: Seek_def seek_loop_suffix)

lemma seek_loop_stops:
  "seek_loop h x args = (h', c, a # rest) \<Longrightarrow> Resolve h' c a = None"
  by (induction args arbitrary: h x) (auto split: option.splits)

lemma Seek_stops:
  "Seek h x args = (h', c, a # rest) \<Longrightarrow> Resolve h' c a = None"
proof (cases "Commands (h x) = None")
  case True
  assume "Seek h x args = (h', c, a # rest)"
  with True show ?thesis by (simp add: Seek_def Resolve_def)
next
  case False
  assume "Seek h x args = (h', c, a # rest)"
  with False have "seek_loop h x args = (h', c, a # rest)" by (auto simp: Seek_def)
  then show ?thesis by (rule seek_loop_stops)
qed

lemma children_Caller_upd [simp]:
  "children ((h(n := (h n)\<lparr>Caller := c\<rparr>)) a) = children (h a)"
  by (simp add: children_def)

lemma follow_names_Caller_upd [simp]:
  "follow_names (h(n := (h n)\<lparr>Caller := c\<rparr>)) x args = follow_names h x args"
proof (induction args arbitrary: x)
  case Nil
  show ?case by simp
next
  case (Cons a as)
  show ?case
    by (cases "find (\<lambda>c. a = Name (h c)) (children (h x))")
      (simp_all del: fun_upd_apply add: Cons.IH)
qed

lemma seek_loop_follows_names:
  "follow_names h x args = Some c \<Longrightarrow> snd (seek_loop h x args) = (c, [])"
proof (induction args arbitrary: h x)
  case Nil
  then show ?case by simp
next
  case (Cons a as)
  then obtain n where n: "find (\<lambda>c. a = Name (h c)) (children (h x)) = Some n"
      and f: "follow_names h n as = Some c"
    by (auto split: option.splits)
  from n have "Resolve h x a = Some n"
    by (auto simp: Resolve_def children_def split: option.splits)
  moreover from f have "follow_names (h(n := (h n)\<lparr>Caller := Some x\<rparr>)) n as = Some c"
    by simp
  then have "snd (seek_loop (h(n := (h n)\<lparr>Caller := Some x\<rparr>)) n as) = (c, [])"
    by (rule Cons.IH)
  ultimately show ?case by (simp del: fun_upd_apply)
qed

text \<open>Tokens that follow child names are all consumed, whatever the alias caches hold:
  \<open>Seek\<close> returns the last node of the path and no residual.\<close>

lemma Seek_follows_names:
  "follow_names h x args = Some c \<Longrightarrow> snd (Seek h x args) = (c, [])"
proof (cases "Commands (h x) = None")
  case True
  assume "follow_names h x args = Some c"
  with True show ?thesis by (cases args) (simp_all add: Seek_def children_def)
next
  case False
  assume "follow_names h x args = Some c"
  then have "snd (seek_loop h x args) = (c, [])" by (rule seek_loop_follows_names)
  with False show ?thesis by (auto simp: Seek_def)
qed

text \<open>
  C1, the code at the failing input. \<open>Run\<close> on the root \<open>r\<close> builds the alias cache of
  \<open>r\<close> only. The tokens \<open>a bb\<close> match the path from \<open>r\<close> over its child \<open>a\<close> to the
  child \<open>b\<close> of \<open>a\<close>, which declares the alias \<open>bb\<close>; \<open>Seek\<close> stops at \<open>a\<close> and leaves
  \<open>bb\<close> over. An alias of a child of the root does resolve: \<open>aa\<close> reaches \<open>a\<close>.
\<close>

theorem Seek_nested_alias_stops:
  "children (nested_store 1) = [2] \<and> ''bb'' \<in> set (Aliases (nested_store 2)) \<and>
   snd (Seek (cacheAliases nested_store 0) 0 [''a'', ''bb'']) = (1, [''bb'']) \<and>
   snd (Seek (cacheAliases nested_store 0) 0 [''aa'']) = (1, [])"
  by (simp add: Seek_def cacheAliases_def nested_store_def nil_cmd_def Resolve_def
      alias_table_def children_def)

section \<open>Shorthand aliases\<close>

lemmas run_defs = Cmd_Run_def dispatch_def default_cmd_def check_args_def check_conf_def
  delegate_def Exit_def ExitError_def TrapPanic_def log_of_def expand_aliases_def
  Seek_def Resolve_def cacheAliases_def alias_table_def children_def

lemma expand_unchanged:
  "args = [] \<or> (\<forall>v. al (hd args) \<noteq> Some (Some v)) \<Longrightarrow> expand_aliases al (p # args) = p # args"
  by (cases args) (auto simp: expand_aliases_def split: option.splits)

lemma expand_alias:
  "al a = Some (Some ts) \<Longrightarrow> expand_aliases al (p # a # r) = p # ts @ r"
  by (simp add: expand_aliases_def)

text \<open>
  C3, as amended. When the shorthand alias \<open>a\<close> stands for the tokens \<open>ts\<close>, the
  arguments \<open>a\<close> followed by \<open>r\<close> are rewritten once, to \<open>ts\<close> followed by \<open>r\<close>
  unchanged, and the run goes on with exactly these arguments, whatever they are. When
  the first of these tokens is not a shorthand alias itself (or there is none), the run
  on \<open>a\<close> and \<open>r\<close> is the run on the written-out arguments: the same node, the same
  residual arguments, the same outcome.
\<close>

theorem shorthand_alias_expansion:
  assumes "Z_Aliases w a = Some (Some ts)"
  shows "expand_aliases (Z_Aliases w) (p # a # r) = p # ts @ r \<and>
         Cmd_Run (w\<lparr>os_Args := p # a # r\<rparr>) x =
           (if COMP_LINE w \<noteq> []
            then completion (w\<lparr>mem := cacheAliases (mem w) x, os_Args := p # ts @ r\<rparr>) x
            else dispatch (w\<lparr>mem := cacheAliases (mem w) x, os_Args := p # ts @ r\<rparr>) [] x) \<and>
         (ts @ r = [] \<or> (\<forall>v. Z_Aliases w (hd (ts @ r)) \<noteq> Some (Some v)) \<longrightarrow>
            Cmd_Run (w\<lparr>os_Args := p # a # r\<rparr>) x = Cmd_Run (w\<lparr>os_Args := p # ts @ r\<rparr>) x)"
proof (intro conjI impI)
  show 1: "expand_aliases (Z_Aliases w) (p # a # r) = p # ts @ r"
    using assms by (rule expand_alias)
  then show "Cmd_Run (w\<lparr>os_Args := p # a # r\<rparr>) x =
           (if COMP_LINE w \<noteq> []
            then completion (w\<lparr>mem := cacheAliases (mem w) x, os_Args := p # ts @ r\<rparr>) x
            else dispatch (w\<lparr>mem := cacheAliases (mem w) x, os_Args := p # ts @ r\<rparr>) [] x)"
    by (simp add: Cmd_Run_def)
  assume "ts @ r = [] \<or> (\<forall>v. Z_Aliases w (hd (ts @ r)) \<noteq> Some (Some v))"
  then have "expand_aliases (Z_Aliases w) (p # ts @ r) = p # ts @ r"
    by (rule expand_unchanged)
  with 1 show "Cmd_Run (w\<lparr>os_Args := p # a # r\<rparr>) x = Cmd_Run (w\<lparr>os_Args := p # ts @ r\<rparr>) x"
    by (simp add: Cmd_Run_def)
qed

theorem shorthand_alias_expansion_witness:
  "Z_Aliases chain_world ''ci'' = Some (Some [''commit'']) \<and>
   (\<forall>v. Z_Aliases chain_world (hd ([''commit''] @ [''-m''])) \<noteq> Some (Some v)) \<and>
   expand_aliases (Z_Aliases chain_world) (''git'' # ''ci'' # [''-m''])
     = ''git'' # [''commit''] @ [''-m''] \<and>
   Cmd_Run (chain_world\<lparr>os_Args := ''git'' # ''ci'' # [''-m'']\<rparr>) 0
     = Cmd_Run (chain_world\<lparr>os_Args := ''git'' # [''commit''] @ [''-m'']\<rparr>) 0 \<and>
   Z_Aliases chain_world ''co'' = Some (Some [''ci'']) \<and>
   expand_aliases (Z_Aliases chain_world) (''git'' # ''co'' # [''-m''])
     = ''git'' # [''ci''] @ [''-m'']"
proof -
  have h1: "Z_Aliases chain_world ''ci'' = Some (Some [''commit''])"
    and h4: "Z_Aliases chain_world ''co'' = Some (Some [''ci''])"
    by (simp_all add: chain_world_def)
  have h2: "[''commit''] @ [''-m''] = [] \<or>
      (\<forall>v. Z_Aliases chain_world (hd ([''commit''] @ [''-m''])) \<noteq> Some (Some v))"
    by (simp add: chain_world_def)
  from h2 have h3: "\<forall>v. Z_Aliases chain_world (hd ([''commit''] @ [''-m''])) \<noteq> Some (Some v)"
    by simp
  from shorthand_alias_expansion [OF h1, of "''git''" "[''-m'']" 0]
    shorthand_alias_expansion [OF h4, of "''git''" "[''-m'']" 0] h1 h2 h3 h4
  show ?thesis
    by blast
qed

text \<open>
  C3 as stated fails when the replacement starts with a shorthand alias: \<open>co\<close> stands
  for \<open>ci\<close>, and \<open>ci\<close> for \<open>commit\<close>. The argument \<open>co\<close> is rewritten once and runs the
  command \<open>ci\<close>; the written-out argument \<open>ci\<close> is rewritten too and runs \<open>commit\<close>.
\<close>

theorem shorthand_alias_chain_counterexample:
  "Z_Aliases chain_world ''co'' = Some (Some [''ci'']) \<and>
   fst (snd (Cmd_Run (chain_world\<lparr>os_Args := ''git'' # ''co'' # []\<rparr>) 0)) = [Invoked 0 1 []] \<and>
   fst (snd (Cmd_Run (chain_world\<lparr>os_Args := ''git'' # [''ci''] @ []\<rparr>) 0)) = [Invoked 0 2 []]"
  by (simp add: run_defs chain_world_def chain_store_def nil_world_def nil_cmd_def)

section \<open>Dispatch\<close>

lemma seek_loop_only_Caller: "\<exists>c. fst (seek_loop h x args) a = (h a)\<lparr>Caller := c\<rparr>"
proof (induction args arbitrary: h x)
  case Nil
  show ?case by (rule exI [of _ "Caller (h a)"]) simp
next
  case (Cons t ts)
  show ?case
  proof (cases "Resolve h x t")
    case None
    then show ?thesis by (intro exI [of _ "Caller (h a)"]) simp
  next
    case (Some nxt)
    from Cons.IH [of "h(nxt := (h nxt)\<lparr>Caller := Some x\<rparr>)" nxt]
    obtain c where "fst (seek_loop (h(nxt := (h nxt)\<lparr>Caller := Some x\<rparr>)) nxt ts) a
        = ((h(nxt := (h nxt)\<lparr>Caller := Some x\<rparr>)) a)\<lparr>Caller := c\<rparr>" by blast
    with Some show ?thesis by (cases "a = nxt") auto
  qed
qed

lemma Seek_only_Caller: "\<exists>c. fst (Seek h x args) a = (h a)\<lparr>Caller := c\<rparr>"
proof (cases "Commands (h x) = None")
  case True
  then show ?thesis by (intro exI [of _ "Caller (h a)"]) (simp add: Seek_def)
next
  case False
  with seek_loop_only_Caller [of h x args a] show ?thesis by (auto simp: Seek_def)
qed

text \<open>\<open>Seek\<close> writes \<open>Caller\<close> fields and nothing else.\<close>

lemma Seek_keeps:
  assumes "Seek h x args = (h', cmd, r)"
  shows "Name (h' a) = Name (h a)" and "Call (h' a) = Call (h a)"
    and "Commands (h' a) = Commands (h a)" and "MinArgs (h' a) = MinArgs (h a)"
    and "ReqConf (h' a) = ReqConf (h a)"
proof -
  from Seek_only_Caller [of h x args a] assms obtain c where "h' a = (h a)\<lparr>Caller := c\<rparr>"
    by auto
  then show "Name (h' a) = Name (h a)" and "Call (h' a) = Call (h a)"
    and "Commands (h' a) = Commands (h a)" and "MinArgs (h' a) = MinArgs (h a)"
    and "ReqConf (h' a) = ReqConf (h a)"
    by simp_all
qed

text \<open>Outside a completion context, with a method on the node that \<open>Seek\<close> returns, a
  run is the two checks and the call on that node and the residual arguments.\<close>

lemma Cmd_Run_direct:
  assumes "COMP_LINE w = []"
      and "expand_aliases (Z_Aliases w) (os_Args w) = p # rest"
      and "Seek (cacheAliases (mem w) x) x rest = (h, cmd, args)"
      and "Call (mem w cmd) \<noteq> None"
  shows "Cmd_Run w x = check_args (w\<lparr>os_Args := p # rest, mem := h\<rparr>) [] x cmd args"
proof -
  have "Call (h cmd) \<noteq> None"
    using Seek_keeps(2) [OF assms(3)] assms(4) by simp
  then show ?thesis
    using assms(1,2,3) by (auto simp: Cmd_Run_def dispatch_def default_cmd_def)
qed

text \<open>The same when the node that \<open>Seek\<close> returns has no method and its first child
  has one: the first child is dispatched, with the node as its caller.\<close>

lemma Cmd_Run_fallback:
  assumes "COMP_LINE w = []"
      and "expand_aliases (Z_Aliases w) (os_Args w) = p # rest"
      and "Seek (cacheAliases (mem w) x) x rest = (h, c, args)"
      and "Call (mem w c) = None" and "children (mem w c) = fcmd # others"
      and "Call (mem w fcmd) \<noteq> None"
  shows "Cmd_Run w x =
     check_args (w\<lparr>os_Args := p # rest, mem := h(fcmd := (h fcmd)\<lparr>Caller := Some c\<rparr>)\<rparr>) [] x fcmd args"
proof -
  have "Call (h c) = None" "Commands (h c) = Commands (mem w c)" "Call (h fcmd) \<noteq> None"
    using Seek_keeps [OF assms(3)] assms(4,6) by simp_all
  then show ?thesis
    using assms(1,2,3,5) by (auto simp: Cmd_Run_def dispatch_def default_cmd_def children_def)
qed

lemma delegate_invokes:
  assumes "Call (mem w cmd) = Some m"
  shows "\<exists>w' tl st. delegate w es x cmd args = (w', es @ [Invoked m cmd args] @ tl, st) \<and>
           (\<forall>e \<in> set tl. \<exists>msg. e = Logged (ActionError msg))"
  using assms
  by (auto simp: delegate_def Let_def Exit_def ExitError_def log_of_def split: option.splits)




lemma delegate_extends: "\<exists>w' tl st. delegate w es x cmd args = (w', es @ tl, st)"
  by (auto simp: delegate_def Let_def Exit_def ExitError_def TrapPanic_def split: option.splits)

lemma check_conf_extends: "\<exists>w' tl st. check_conf w es x cmd args = (w', es @ tl, st)"
proof (cases "ReqConf (mem w x) \<and> Conf w = None \<and> DoNotExit w")
  case True
  from delegate_extends [of w "es @ log_of (ReqConfError (Name (mem w cmd)))" x cmd args]
  obtain w' tl st where
    "delegate w (es @ log_of (ReqConfError (Name (mem w cmd)))) x cmd args
       = (w', (es @ log_of (ReqConfError (Name (mem w cmd)))) @ tl, st)" by blast
  with True show ?thesis by (simp add: check_conf_def ExitError_def)
next
  case False
  with delegate_extends [of w es x cmd args] show ?thesis
    by (auto simp: check_conf_def ExitError_def)
qed

text \<open>
  C4, as amended. \<open>check_args w es x cmd args\<close> is the dispatch of the effective target
  \<open>cmd\<close>, which has a method \<open>m\<close>, with the residual arguments \<open>args\<close>. With fewer
  arguments than \<open>MinArgs\<close> it logs the usage error of \<open>cmd\<close>, always and before
  anything else; with exits enabled (\<open>DoNotExit\<close> not set) it then exits with status 1
  and the method is not called. With \<open>MinArgs\<close> arguments or more, and the
  configuration check passing, the method is called once, on \<open>cmd\<close> with exactly
  \<open>args\<close>; nothing follows but the log of the error it may return.
\<close>

theorem MinArgs_check:
  assumes "Call (mem w cmd) = Some m"
  shows "(int (length args) < MinArgs (mem w cmd) \<longrightarrow>
            (\<exists>w' tl st. check_args w es x cmd args = (w', es @ Logged (UsageError cmd) # tl, st)) \<and>
            (\<not> DoNotExit w \<longrightarrow>
               check_args w es x cmd args = (w, es @ [Logged (UsageError cmd)], Exited 1))) \<and>
         (MinArgs (mem w cmd) \<le> int (length args) \<and> \<not> (ReqConf (mem w x) \<and> Conf w = None) \<longrightarrow>
            (\<exists>w' tl st. check_args w es x cmd args = (w', es @ [Invoked m cmd args] @ tl, st) \<and>
               (\<forall>e \<in> set tl. \<exists>msg. e = Logged (ActionError msg))))"
proof (intro conjI impI)
  assume short: "int (length args) < MinArgs (mem w cmd)"
  show "\<exists>w' tl st. check_args w es x cmd args = (w', es @ Logged (UsageError cmd) # tl, st)"
  proof (cases "DoNotExit w")
    case True
    from check_conf_extends [of w "es @ [Logged (UsageError cmd)]" x cmd args]
    obtain w' tl st where
      "check_conf w (es @ [Logged (UsageError cmd)]) x cmd args
         = (w', (es @ [Logged (UsageError cmd)]) @ tl, st)" by blast
    with True short show ?thesis by (simp add: check_args_def ExitError_def log_of_def)
  next
    case False
    with short show ?thesis by (simp add: check_args_def ExitError_def log_of_def)
  qed
next
  assume "int (length args) < MinArgs (mem w cmd)" and "\<not> DoNotExit w"
  then show "check_args w es x cmd args = (w, es @ [Logged (UsageError cmd)], Exited 1)"
    by (simp add: check_args_def ExitError_def log_of_def)
next
  assume "MinArgs (mem w cmd) \<le> int (length args) \<and> \<not> (ReqConf (mem w x) \<and> Conf w = None)"
  then have "check_args w es x cmd args = delegate w es x cmd args"
    by (auto simp: check_args_def check_conf_def)
  with delegate_invokes [OF assms, of es x args]
  show "\<exists>w' tl st. check_args w es x cmd args = (w', es @ [Invoked m cmd args] @ tl, st) \<and>
               (\<forall>e \<in> set tl. \<exists>msg. e = Logged (ActionError msg))"
    by simp
qed

theorem MinArgs_check_witness:
  "Call (mem leaf_world 0) = Some 0 \<and>
   int (length [''one'']) < MinArgs (mem leaf_world 0) \<and> \<not> DoNotExit leaf_world \<and>
   check_args leaf_world [] 0 0 [''one''] = (leaf_world, [] @ [Logged (UsageError 0)], Exited 1) \<and>
   MinArgs (mem leaf_world 0) \<le> int (length [''one'', ''two'']) \<and>
   \<not> (ReqConf (mem leaf_world 0) \<and> Conf leaf_world = None) \<and>
   (\<exists>w' tl st. check_args leaf_world [] 0 0 [''one'', ''two'']
        = (w', [] @ [Invoked 0 0 [''one'', ''two'']] @ tl, st) \<and>
      (\<forall>e \<in> set tl. \<exists>msg. e = Logged (ActionError msg)))"
proof -
  have h: "Call (mem leaf_world 0) = Some 0"
    by (simp add: leaf_world_def leaf_store_def nil_world_def nil_cmd_def)
  have a: "int (length [''one'']) < MinArgs (mem leaf_world 0)" and a': "\<not> DoNotExit leaf_world"
    by (simp_all add: leaf_world_def leaf_store_def nil_world_def nil_cmd_def)
  have b: "MinArgs (mem leaf_world 0) \<le> int (length [''one'', ''two'']) \<and>
      \<not> (ReqConf (mem leaf_world 0) \<and> Conf leaf_world = None)"
    by (simp add: leaf_world_def leaf_store_def nil_world_def nil_cmd_def)
  from MinArgs_check [OF h, of "[''one'']" "[]" 0] a a'
  have 1: "check_args leaf_world [] 0 0 [''one'']
      = (leaf_world, [] @ [Logged (UsageError 0)], Exited 1)"
    by blast
  from MinArgs_check [OF h, of "[''one'', ''two'']" "[]" 0] b
  have 2: "\<exists>w' tl st. check_args leaf_world [] 0 0 [''one'', ''two'']
        = (w', [] @ [Invoked 0 0 [''one'', ''two'']] @ tl, st) \<and>
      (\<forall>e \<in> set tl. \<exists>msg. e = Logged (ActionError msg))"
    by blast
  from h a a' b 1 2 show ?thesis by blast
qed

text \<open>
  C4 as stated fails when \<open>DoNotExit\<close> is set: \<open>ExitError\<close> logs the usage error and
  returns, the run goes on, and the method is called with the single argument.
\<close>

theorem MinArgs_DoNotExit_counterexample:
  "Call (leaf_store 0) = Some 0 \<and> int (length [''one'']) < MinArgs (leaf_store 0) \<and>
   snd (Cmd_Run (leaf_world\<lparr>DoNotExit := True\<rparr>) 0)
     = ([Logged (UsageError 0), Invoked 0 0 [''one'']], Returned)"
  by (simp add: run_defs leaf_world_def leaf_store_def nil_world_def nil_cmd_def)




text \<open>
  C6, as amended. When the node \<open>x\<close> that \<open>Run\<close> was called on has \<open>ReqConf\<close> set, no
  configurer is assigned, the effective target \<open>cmd\<close> has passed the check before (it has
  \<open>MinArgs\<close> arguments or more) and exits are enabled, the dispatch logs the error of
  \<open>ReqConfError\<close> with the name of \<open>cmd\<close> and exits with status 1; no method is called.
\<close>

theorem ReqConf_check:
  assumes "ReqConf (mem w x)" and "Conf w = None"
      and "MinArgs (mem w cmd) \<le> int (length args)" and "\<not> DoNotExit w"
  shows "check_args w es x cmd args = (w, es @ [Logged (ReqConfError (Name (mem w cmd)))], Exited 1)"
  using assms by (simp add: check_args_def check_conf_def ExitError_def log_of_def)

theorem ReqConf_check_witness:
  "ReqConf (mem rootconf_world 0) \<and> Conf rootconf_world = None \<and>
   MinArgs (mem rootconf_world 1) \<le> int (length ([]::string list)) \<and> \<not> DoNotExit rootconf_world \<and>
   check_args rootconf_world [] 0 1 [] = (rootconf_world, [Logged (ReqConfError ''a'')], Exited 1)"
proof -
  have 1: "ReqConf (mem rootconf_world 0)" and 2: "Conf rootconf_world = None"
    and 3: "MinArgs (mem rootconf_world 1) \<le> int (length ([]::string list))"
    and 4: "\<not> DoNotExit rootconf_world" and 5: "Name (mem rootconf_world 1) = ''a''"
    by (simp_all add: rootconf_world_def conf_world_def conf_store_def nil_world_def nil_cmd_def)
  from ReqConf_check [OF 1 2 3 4, of "[]"] 1 2 3 4 5 show ?thesis by simp
qed

text \<open>
  C6 as stated fails three times. The target \<open>a\<close> has \<open>ReqConf\<close> set, the root has
  not, no configurer is assigned: the run calls the method of \<open>a\<close> and exits with
  status 0, because only \<open>ReqConf\<close> of the root is read. When the root has it set and
  \<open>DoNotExit\<close> is set too, the error is logged and the method is called all the same.
  And when the root has it set and the target lacks an argument, the usage error comes
  first and is the only one.
\<close>

theorem ReqConf_target_counterexample:
  "ReqConf (conf_store 1) \<and> Conf conf_world = None \<and>
   snd (Cmd_Run conf_world 0) = ([Invoked 0 1 []], Exited 0) \<and>
   ReqConf (mem rootconf_world 0) \<and> Conf rootconf_world = None \<and>
   snd (Cmd_Run (rootconf_world\<lparr>DoNotExit := True\<rparr>) 0)
     = ([Logged (ReqConfError ''a''), Invoked 0 1 []], Returned) \<and>
   snd (Cmd_Run (rootconf_world\<lparr>mem := (mem rootconf_world)
          (1 := (mem rootconf_world 1)\<lparr>MinArgs := 1\<rparr>)\<rparr>) 0)
     = ([Logged (UsageError 1)], Exited 1)"
  by (simp add: run_defs rootconf_world_def conf_world_def conf_store_def nil_world_def
      nil_cmd_def)

section \<open>Multicall\<close>

text \<open>With exits enabled no part of \<open>Cmd.Run\<close> returns to its caller.\<close>

lemma delegate_exits:
  "\<not> DoNotExit w \<Longrightarrow> snd (snd (delegate w es x cmd args)) \<noteq> Returned"
  by (simp add: delegate_def Let_def Exit_def ExitError_def TrapPanic_def split: option.splits)

lemma check_conf_exits:
  "\<not> DoNotExit w \<Longrightarrow> snd (snd (check_conf w es x cmd args)) \<noteq> Returned"
  by (simp add: check_conf_def ExitError_def delegate_exits)

lemma check_args_exits:
  "\<not> DoNotExit w \<Longrightarrow> snd (snd (check_args w es x cmd args)) \<noteq> Returned"
  by (simp add: check_args_def ExitError_def check_conf_exits)

lemma default_cmd_exits:
  "\<not> DoNotExit w \<Longrightarrow> snd (snd (default_cmd w es x cmd args)) \<noteq> Returned"
  by (simp add: default_cmd_def ExitError_def check_args_exits Let_def split: list.splits)

lemma dispatch_exits:
  "\<not> DoNotExit w \<Longrightarrow> snd (snd (dispatch w es x)) \<noteq> Returned"
  by (simp add: dispatch_def TrapPanic_def default_cmd_exits split: list.splits prod.splits)

lemma completion_exits:
  "\<not> DoNotExit w \<Longrightarrow> snd (snd (completion w x)) \<noteq> Returned"
  by (simp add: completion_def Let_def TrapPanic_def Exit_def
      split: list.splits prod.splits option.splits)

lemma Cmd_Run_exits:
  "\<not> DoNotExit w \<Longrightarrow> snd (snd (Cmd_Run w x)) \<noteq> Returned"
  by (simp add: Cmd_Run_def Let_def dispatch_exits completion_exits)

lemma collect_strings_AStr: "collect_strings d (map AStr ss) = ([], ss, False)"
  by (induction ss) auto

lemma run_mapped_prefix:
  assumes "Cmd_Run (w\<lparr>os_Args := args\<rparr>) cmd = (w', es, st)"
  shows "prefix es (fst (snd (run_mapped w [] cmd args))) \<and>
         (st \<noteq> Returned \<longrightarrow> run_mapped w [] cmd args = (w', es, st))"
  using assms by (simp add: run_mapped_def Exit_def ExitError_def)

text \<open>
  C7, as amended. When the entry of the executable's name is a command followed by one
  or more strings, \<open>Run\<close> starts with the run of that command on its own name, the
  strings, and then the real arguments after the program name; with exits enabled that
  run is all of it. When the name has no entry, \<open>Run\<close> logs the error of the unmapped
  multicall command and, with exits enabled, exits with status 1; with \<open>DoNotExit\<close> set
  it returns.
\<close>

theorem multicall_Run:
  "(\<forall>cmd ss p real. Z_Commands w (ExeName w) = Some (ACmd cmd # map AStr ss) \<and> ss \<noteq> [] \<and>
        os_Args w = p # real \<longrightarrow>
      (\<exists>w' es st. Cmd_Run (w\<lparr>os_Args := Name (mem w cmd) # ss @ real\<rparr>) cmd = (w', es, st) \<and>
         prefix es (fst (snd (Run w))) \<and>
         (\<not> DoNotExit w \<longrightarrow> Run w = (w', es, st)))) \<and>
   (Z_Commands w (ExeName w) = None \<longrightarrow>
      Run w = (w, [Logged (Unmapped (ExeName w))], if DoNotExit w then Returned else Exited 1))"
proof (intro conjI allI impI)
  fix cmd ss p real
  assume a: "Z_Commands w (ExeName w) = Some (ACmd cmd # map AStr ss) \<and> ss \<noteq> [] \<and>
             os_Args w = p # real"
  let ?w = "w\<lparr>os_Args := Name (mem w cmd) # ss @ real\<rparr>"
  obtain w' es st where r: "Cmd_Run ?w cmd = (w', es, st)"
    by (cases "Cmd_Run ?w cmd") auto
  have m: "Run w = run_mapped w [] cmd (Name (mem w cmd) # ss @ real)"
    using a by (simp add: Run_def collect_strings_AStr)
  have "\<not> DoNotExit w \<longrightarrow> st \<noteq> Returned"
    using Cmd_Run_exits [of ?w cmd] r by simp
  with run_mapped_prefix [OF r] m
  have "prefix es (fst (snd (Run w))) \<and> (\<not> DoNotExit w \<longrightarrow> Run w = (w', es, st))"
    by simp
  with r show "\<exists>w' es st. Cmd_Run ?w cmd = (w', es, st) \<and> prefix es (fst (snd (Run w))) \<and>
         (\<not> DoNotExit w \<longrightarrow> Run w = (w', es, st))"
    by blast
next
  assume "Z_Commands w (ExeName w) = None"
  then show "Run w = (w, [Logged (Unmapped (ExeName w))], if DoNotExit w then Returned else Exited 1)"
    by (simp add: Run_def ExitError_def log_of_def)
qed

theorem multicall_Run_witness:
  "\<not> DoNotExit lsa_world \<and>
   Z_Commands lsa_world (ExeName lsa_world) = Some (ACmd 0 # map AStr [''-a'']) \<and>
   os_Args lsa_world = ''ls'' # [''-l''] \<and>
   Run lsa_world = Cmd_Run (lsa_world\<lparr>os_Args := ''ls'' # [''-a''] @ [''-l'']\<rparr>) 0 \<and>
   Z_Commands nil_world (ExeName nil_world) = None \<and>
   Run nil_world = (nil_world, [Logged (Unmapped [])], Exited 1)"
proof -
  have 1: "\<not> DoNotExit lsa_world" and 2: "\<not> DoNotExit nil_world"
    by (simp_all add: lsa_world_def ls_world_def nil_world_def)
  have 3: "Z_Commands lsa_world (ExeName lsa_world) = Some (ACmd 0 # map AStr [''-a''])"
    and 4: "os_Args lsa_world = ''ls'' # [''-l'']"
    and 5: "Name (mem lsa_world 0) = ''ls''"
    by (simp_all add: lsa_world_def ls_world_def ls_store_def nil_world_def nil_cmd_def)
  have 6: "Z_Commands nil_world (ExeName nil_world) = None" and 7: "ExeName nil_world = []"
    by (simp_all add: nil_world_def)
  from multicall_Run [of lsa_world] 1 3 4 5
  have "Run lsa_world = Cmd_Run (lsa_world\<lparr>os_Args := ''ls'' # [''-a''] @ [''-l'']\<rparr>) 0"
    by (metis list.distinct(1))
  moreover from multicall_Run [of nil_world] 2 6 7
  have "Run nil_world = (nil_world, [Logged (Unmapped [])], Exited 1)"
    by simp
  ultimately show ?thesis using 1 3 4 6 by blast
qed

text \<open>
  C7 as stated fails twice. For an entry that holds the command alone (no string to
  prepend) \<open>os.Args\<close> becomes the command's name alone: the real argument \<open>-l\<close> is
  dropped and the method gets no argument. And with \<open>DoNotExit\<close> set an unmapped name
  is logged and \<open>Run\<close> returns; the process does not end.
\<close>

theorem multicall_Run_counterexample:
  "Z_Commands ls_world (ExeName ls_world) = Some (ACmd 0 # map AStr []) \<and>
   os_Args ls_world = ''ls'' # [''-l''] \<and>
   snd (Run ls_world) = ([Invoked 0 0 []], Exited 0) \<and>
   snd (Run lsa_world) = ([Invoked 0 0 [''-a'', ''-l'']], Exited 0) \<and>
   Z_Commands nil_world (ExeName nil_world) = None \<and>
   snd (Run (nil_world\<lparr>DoNotExit := True\<rparr>)) = ([Logged (Unmapped [])], Returned)"
  by (simp add: Run_def run_mapped_def run_defs lsa_world_def ls_world_def ls_store_def
      nil_world_def nil_cmd_def)

section \<open>Completion\<close>

text \<open>
  C8, as amended. For a node without a completer, standard completion of no token is
  the node's name alone; of one or more tokens it is the names of the children (empty
  names left out) followed by the parameter strings, without every entry that is in
  \<open>Hidden\<close>, parameters included, and of these the ones that start with the first
  token, in that order.
\<close>

theorem Standard_completion:
  assumes "Completer (h x) = None"
  shows "Standard comps h x [] = [Name (h x)] \<and>
         Standard comps h x (a # as) =
           filter (prefix a)
             (filter (\<lambda>s. s \<notin> set (Hidden (h x)))
                (filter (\<lambda>n. n \<noteq> []) (map (\<lambda>c. Name (h c)) (children (h x)))
                 @ Params (h x)))"
  using assms by (simp add: Standard_def CmdNames_def Minus_def HasPrefix_def)

theorem Standard_completion_witness:
  "Completer (build_store 0) = None \<and>
   Standard (\<lambda>_ _ _ _. []) build_store 0 [] = [''root''] \<and>
   Standard (\<lambda>_ _ _ _. []) build_store 0 (''b'' # []) = [''build'']"
proof -
  have h: "Completer (build_store 0) = None"
    by (simp add: build_store_def nil_cmd_def)
  from Standard_completion [of build_store 0 "\<lambda>_ _ _ _. []" "''b''" "[]", OF h] h
  show ?thesis
    by (simp add: build_store_def nil_cmd_def children_def)
qed

text \<open>
  C8 as stated fails for a parameter that is listed in \<open>Hidden\<close>: the claim keeps the
  parameter strings as they are, the code removes the hidden one.
\<close>

theorem Standard_hidden_param_counterexample:
  "Completer (hidden_store 0) = None \<and>
   Standard (\<lambda>_ _ _ _. []) hidden_store 0 [''s''] = [] \<and>
   Standard_as_claimed hidden_store 0 [''s''] = [''secret'']"
  by (simp add: Standard_def Standard_as_claimed_def CmdNames_def Minus_def HasPrefix_def
      hidden_store_def nil_cmd_def children_def)

text \<open>The code and the claim agree on a node none of whose parameters is hidden and
  whose children all have a name.\<close>

lemma Standard_agrees:
  assumes "Completer (h x) = None" and "set (Params (h x)) \<inter> set (Hidden (h x)) = {}"
      and "\<forall>c \<in> set (children (h x)). Name (h c) \<noteq> []"
  shows "Standard comps h x args = Standard_as_claimed h x args"
proof -
  have 1: "filter (\<lambda>n. n \<noteq> []) (map (\<lambda>c. Name (h c)) (children (h x)))
      = map (\<lambda>c. Name (h c)) (children (h x))"
    using assms(3) by (simp add: filter_id_conv)
  have 2: "filter (\<lambda>i. i \<notin> set (Hidden (h x))) (Params (h x)) = Params (h x)"
    using assms(2) by (auto simp: filter_id_conv)
  show ?thesis
    using assms(1) 1 2
    by (simp add: Standard_def Standard_as_claimed_def CmdNames_def Minus_def HasPrefix_def)
qed

lemma fields_go_nonempty: "[] \<notin> set (fields_go k cur s)"
  by (induction k cur s rule: fields_go.induct) (auto simp: flush_def Let_def)

lemma space_width_0_not_space: "space_width (c # cs) = 0 \<Longrightarrow> \<not> asciiSpace c"
  by (auto simp: space_width_def split: if_splits)

lemma fields_go_no_space:
  "\<forall>c \<in> set cur. \<not> asciiSpace c \<Longrightarrow>
   \<forall>f \<in> set (fields_go k cur s). \<forall>c \<in> set f. \<not> asciiSpace c"
proof (induction k cur s rule: fields_go.induct)
  case (1 k cur)
  then show ?case by (simp add: flush_def)
next
  case (2 k cur c cs)
  then show ?case by simp
next
  case (3 cur c cs)
  show ?case
  proof (cases "space_width (c # cs) = 0")
    case True
    with 3 space_width_0_not_space [OF True] show ?thesis by simp
  next
    case False
    with 3 show ?thesis by (auto simp: flush_def Let_def)
  qed
qed

lemma Fields_no_space: "\<forall>f \<in> set (Fields s). \<forall>c \<in> set f. \<not> asciiSpace c"
  unfolding Fields_def by (rule fields_go_no_space) simp

lemma space_width_ascii:
  "(of_char c :: nat) < 128 \<Longrightarrow> space_width (c # cs) = (if asciiSpace c then 1 else 0)"
  by (auto simp: space_width_def)

lemma fields_go_ascii:
  "\<forall>c \<in> set s. (of_char c :: nat) < 128 \<Longrightarrow>
   concat (fields_go 0 cur s) = rev cur @ filter (\<lambda>c. \<not> asciiSpace c) s"
proof (induction s arbitrary: cur)
  case Nil
  then show ?case by (simp add: flush_def)
next
  case (Cons c cs)
  then show ?case by (simp add: space_width_ascii flush_def)
qed

text \<open>On an ASCII line the fields, put together, are the line without its white space.\<close>

lemma Fields_ascii:
  "\<forall>c \<in> set s. (of_char c :: nat) < 128 \<Longrightarrow>
   concat (Fields s) = filter (\<lambda>c. \<not> asciiSpace c) s"
  by (simp add: Fields_def fields_go_ascii)

text \<open>
  C9, as amended. \<open>ArgsFrom\<close> returns the fields of the line, each of them non-empty
  and free of white space, followed by one empty token if and only if the last byte of
  the line is the space character U+0020.
\<close>

theorem ArgsFrom_trailing:
  "ArgsFrom line = Fields line @ (if line \<noteq> [] \<and> last line = CHR 0x20 then [[]] else []) \<and>
   (\<forall>f \<in> set (Fields line). f \<noteq> [] \<and> (\<forall>c \<in> set f. \<not> asciiSpace c))"
proof -
  have 1: "ArgsFrom line =
      Fields line @ (if line \<noteq> [] \<and> last line = CHR 0x20 then [[]] else [])"
    by (simp add: ArgsFrom_def Fields_def flush_def)
  have 2: "[] \<notin> set (Fields line)"
    by (simp add: Fields_def fields_go_nonempty)
  from 1 2 Fields_no_space [of line] show ?thesis
    by blast
qed

theorem ArgsFrom_trailing_witness:
  "ArgsFrom ''git co '' = [''git'', ''co'', []] \<and> ArgsFrom ''git co'' = [''git'', ''co'']"
  using ArgsFrom_trailing [of "''git co ''"] ArgsFrom_trailing [of "''git co''"]
  by (simp add: Fields_def flush_def space_width_def asciiSpace_def)

text \<open>
  C9 as stated fails for a line that ends in a tab: the tab is white space and ends the
  field \<open>a\<close>, but no empty token follows.
\<close>

theorem ArgsFrom_tab_counterexample:
  "asciiSpace (last [CHR ''a'', CHR 0x09]) \<and> space_width [CHR 0x09] = 1 \<and>
   ArgsFrom [CHR ''a'', CHR 0x09] = [''a'']"
  by (simp add: ArgsFrom_def Fields_def flush_def space_width_def asciiSpace_def)

section \<open>The configuration query\<close>

text \<open>
  C10. Without a configurer \<open>Q\<close> logs the line that names the node and returns the
  empty string: it returns, and no configurer is called. A call of the configurer
  happens only when one is assigned; then, when \<open>Path\<close> returns, the query is the
  dotted path, a dot and \<open>q\<close>, and \<open>Q\<close> returns the configurer's answer.
\<close>

theorem Q_without_Conf:
  "(Conf w = None \<longrightarrow> Q w x q = Some ([LoggedReqConf (Name (mem w x))], [])) \<and>
   (\<forall>es r s. Q w x q = Some (es, r) \<and> Queried s \<in> set es \<longrightarrow> Conf w \<noteq> None) \<and>
   (\<forall>query p. Conf w = Some query \<and> PathString (mem w) x = Some p \<longrightarrow>
      Q w x q = Some ([Queried (p @ ''.'' @ q)], query (p @ ''.'' @ q)))"
  by (auto simp: Q_def split: option.splits)

theorem Q_without_Conf_witness:
  "Conf stub_world = None \<and> Q stub_world 1 ''key'' = Some ([LoggedReqConf ''stub''], [])"
proof -
  have h: "Conf stub_world = None" "Name (mem stub_world 1) = ''stub''"
    by (simp_all add: stub_world_def stub_store_def nil_world_def nil_cmd_def)
  with Q_without_Conf [of stub_world 1 "''key''"] show ?thesis by simp
qed

end
